theory Spec2Isabelle
  imports Main "HOL-Library.AList"
begin

section \<open>Data model\<close>

text \<open>
  The row reconciler of \<^verbatim>\<open>src/main.py\<close> is the function \<^verbatim>\<open>save_changes\<close>.
  It receives two pandas data frames (the table as loaded, and the copy the grid
  widget returns), and talks to the database through one SQLAlchemy connection.

  A cell of a data frame is a missing value (\<^verbatim>\<open>None\<close>/\<^verbatim>\<open>NaN\<close>), a
  number or a text. A number in the \<^verbatim>\<open>rowid\<close> column is an integer; pandas may
  store it as the float of the same value when the column also holds \<^verbatim>\<open>NaN\<close>, and
  \<^verbatim>\<open>astype(int)\<close> gives the integer back, so both are \<open>IntV\<close> here.

  Every column of a data frame has a dtype. A frame read from SQLite has columns of
  three dtypes: \<^verbatim>\<open>int64\<close> (integers, none missing), \<^verbatim>\<open>float64\<close> (numbers,
  a missing one is \<^verbatim>\<open>NaN\<close>) and \<^verbatim>\<open>object\<close> (anything else). The dtypes are
  part of the frame: an integer column of the table is \<^verbatim>\<open>int64\<close> in the frame as
  loaded and becomes \<^verbatim>\<open>float64\<close> in the edited frame once a cell of it is
  cleared.
\<close>

datatype val = Null | IntV int | StrV string

datatype dtype = Int64 | Float64 | Object

record frame =
  columns :: "string list"
  dtypes :: "dtype list"
  rows :: "val list list"

text \<open>
  The three kinds of statement that \<^verbatim>\<open>save_changes\<close> sends:
  \<^item> \<^verbatim>\<open>DELETE FROM t WHERE rowid IN (ids)\<close>: the table and the identifiers;
  \<^item> \<^verbatim>\<open>to_sql(t, conn, if_exists='append', index=False)\<close>: the table, the column
    names and the rows of the frame that is appended;
  \<^item> \<^verbatim>\<open>UPDATE "t" SET "col" = :key, ... WHERE rowid = :rowid\<close>: the table, the
    pairs (column, bind key) of the SET clause in order, and the dictionary of bind
    parameters (an association list in insertion order, as a Python dict is).
\<close>

datatype stmt =
    Delete string "int set"
  | Insert string "string list" "val list list"
  | Update string "(string \<times> string) list" "(string \<times> val) list"

text \<open>The exceptions that can reach the \<^verbatim>\<open>except Exception as e\<close> of \<^verbatim>\<open>save_changes\<close>.\<close>

datatype exn = KeyError string | ValueError string | DBError string

fun str_exn :: "exn \<Rightarrow> string" where
  "str_exn (KeyError k) = k"
| "str_exn (ValueError m) = m"
| "str_exn (DBError m) = m"

text \<open>
  The storage engine is not part of the repository: it is a parameter, a function
  that runs one statement on a database state and either fails with the driver's
  message or gives the next state.
\<close>

type_synonym 'db backend = "stmt \<Rightarrow> 'db \<Rightarrow> string + 'db"

text \<open>
  A connection inside \<^verbatim>\<open>with engine.connect() as conn: trans = conn.begin()\<close>:
  the state that was committed when the transaction began, the state the transaction
  works on, and a record of every statement sent, each with the failure message of
  the engine if it failed.
\<close>

record 'db conn =
  committed :: 'db
  work :: 'db
  sent :: "(stmt \<times> string option) list"

text \<open>
  What \<^verbatim>\<open>save_changes\<close> can change outside its arguments: the database file, the
  three entries of \<^verbatim>\<open>st.session_state\<close> it writes, and the errors it shows on
  the page with \<^verbatim>\<open>st.error\<close>.
\<close>

record 'db world =
  db :: 'db
  success_message :: "string option"
  error_message :: "string option"
  session_flags :: "string \<rightharpoonup> bool"
  page_errors :: "string list"

section \<open>Printing numbers\<close>

definition digit :: "nat \<Rightarrow> char" where
  "digit d = char_of (48 + d)"

fun string_of_nat :: "nat \<Rightarrow> string" where
  "string_of_nat n =
     (if n < 10 then [digit n] else string_of_nat (n div 10) @ [digit (n mod 10)])"

declare string_of_nat.simps [simp del]

definition string_of_int :: "int \<Rightarrow> string" where
  "string_of_int i = (if i < 0 then CHR ''-'' # string_of_nat (nat (- i)) else string_of_nat (nat i))"

section \<open>The data frame operations that save\_changes uses\<close>

fun col_index :: "string \<Rightarrow> string list \<Rightarrow> nat option" where
  "col_index c [] = None"
| "col_index c (x # xs) = (if x = c then Some 0 else map_option Suc (col_index c xs))"

text \<open>A row shorter than the header reads as missing in the columns it lacks.\<close>

definition cell :: "val list \<Rightarrow> nat \<Rightarrow> val" where
  "cell r i = (if i < length r then r ! i else Null)"

text \<open>\<^verbatim>\<open>df[name]\<close>: the column, or \<^verbatim>\<open>KeyError\<close>, whose text is the quoted name.\<close>

definition getitem :: "frame \<Rightarrow> string \<Rightarrow> exn + val list" where
  "getitem df name =
     (case col_index name (columns df) of
        None \<Rightarrow> Inl (KeyError ([CHR 0x27] @ name @ [CHR 0x27]))
      | Some i \<Rightarrow> Inr (map (\<lambda>r. cell r i) (rows df)))"

definition isna :: "val \<Rightarrow> bool" where
  "isna v = (v = Null)"

definition dropna :: "val list \<Rightarrow> val list" where
  "dropna vs = filter (\<lambda>v. \<not> isna v) vs"

text \<open>
  \<^verbatim>\<open>astype(int)\<close>: a number converts, a text that is not a number raises
  \<^verbatim>\<open>ValueError\<close>, and so does a missing value (none is left after \<^verbatim>\<open>dropna\<close>).
  The \<^verbatim>\<open>rowid\<close> column is read by \<^verbatim>\<open>SELECT rowid\<close> and edited through a
  disabled number column, so it holds no text; \<open>wf_frame\<close> below says so.
\<close>

fun astype_int :: "val list \<Rightarrow> exn + int list" where
  "astype_int [] = Inr []"
| "astype_int (Null # vs) = Inl (ValueError ''cannot convert float NaN to integer'')"
| "astype_int (StrV s # vs) = Inl (ValueError (''invalid literal for int() with base 10: '' @ [CHR 0x27] @ s @ [CHR 0x27]))"
| "astype_int (IntV i # vs) =
     (case astype_int vs of Inl e \<Rightarrow> Inl e | Inr js \<Rightarrow> Inr (i # js))"

text \<open>\<^verbatim>\<open>def get_ids(df): return set(df['rowid'].dropna().astype(int))\<close>\<close>

definition get_ids :: "frame \<Rightarrow> exn + int set" where
  "get_ids df =
     (case getitem df ''rowid'' of
        Inl e \<Rightarrow> Inl e
      | Inr col \<Rightarrow>
          (case astype_int (dropna col) of
             Inl e \<Rightarrow> Inl e
           | Inr js \<Rightarrow> Inr (set js)))"

text \<open>The \<^verbatim>\<open>rowid\<close> cell of a row, where the column is known to exist.\<close>

definition rowid_cell :: "string list \<Rightarrow> val list \<Rightarrow> val" where
  "rowid_cell cols r =
     (case col_index ''rowid'' cols of None \<Rightarrow> Null | Some i \<Rightarrow> cell r i)"

text \<open>\<^verbatim>\<open>df[df['rowid'].isna()]\<close> and \<^verbatim>\<open>df[df['rowid'].isin(ids)]\<close>.\<close>

definition select_isna :: "frame \<Rightarrow> frame" where
  "select_isna df = df\<lparr>rows := filter (\<lambda>r. isna (rowid_cell (columns df) r)) (rows df)\<rparr>"

definition isin :: "val \<Rightarrow> int set \<Rightarrow> bool" where
  "isin v ids = (case v of IntV i \<Rightarrow> i \<in> ids | _ \<Rightarrow> False)"

definition select_isin :: "int set \<Rightarrow> frame \<Rightarrow> frame" where
  "select_isin ids df = df\<lparr>rows := filter (\<lambda>r. isin (rowid_cell (columns df) r) ids) (rows df)\<rparr>"

text \<open>\<^verbatim>\<open>df.drop(columns=[name])\<close> removes the cells under that label.\<close>

definition drop_label :: "string \<Rightarrow> string list \<Rightarrow> 'a list \<Rightarrow> 'a list" where
  "drop_label name cols r = map snd (filter (\<lambda>(c, v). c \<noteq> name) (zip cols r))"

definition drop_columns :: "string \<Rightarrow> frame \<Rightarrow> frame" where
  "drop_columns name df =
     \<lparr>columns = filter (\<lambda>c. c \<noteq> name) (columns df),
      dtypes = drop_label name (columns df) (dtypes df),
      rows = map (drop_label name (columns df)) (rows df)\<rparr>"

text \<open>
  \<^verbatim>\<open>df.set_index('rowid')\<close>: the column becomes the index of the frame and leaves
  the columns. \<^verbatim>\<open>.loc[rid]\<close> on it gives the row with that index as a Series, the
  remaining labels each with its value, or raises \<^verbatim>\<open>KeyError\<close>. Where the index
  is unique, as the identifiers of a table are, there is one such row.

  A row read as a Series has one dtype, the common dtype of the columns it crosses:
  their dtype if they all have the same, \<^verbatim>\<open>object\<close> if one of them is
  \<^verbatim>\<open>object\<close>, and \<^verbatim>\<open>float64\<close> for a mix of \<^verbatim>\<open>int64\<close> and
  \<^verbatim>\<open>float64\<close>. (A table has a column, so the list is not empty where the
  function is used.)
\<close>

record indexed =
  labels :: "string list"
  kinds :: "dtype list"
  entries :: "(val \<times> val list) list"

definition set_index :: "frame \<Rightarrow> indexed" where
  "set_index df =
     \<lparr>labels = filter (\<lambda>c. c \<noteq> ''rowid'') (columns df),
      kinds = drop_label ''rowid'' (columns df) (dtypes df),
      entries = map (\<lambda>r. (rowid_cell (columns df) r, drop_label ''rowid'' (columns df) r)) (rows df)\<rparr>"

definition common_dtype :: "dtype list \<Rightarrow> dtype" where
  "common_dtype ds =
     (if ds = [] \<or> Object \<in> set ds then Object
      else if Float64 \<in> set ds then Float64
      else Int64)"

record series =
  dtype_of :: dtype
  cells :: "(string \<times> val) list"

definition loc :: "indexed \<Rightarrow> int \<Rightarrow> exn + series" where
  "loc ix rid =
     (case find (\<lambda>(k, r). k = IntV rid) (entries ix) of
        None \<Rightarrow> Inl (KeyError (string_of_int rid))
      | Some (k, r) \<Rightarrow> Inr \<lparr>dtype_of = common_dtype (kinds ix), cells = zip (labels ix) r\<rparr>)"

text \<open>
  \<^verbatim>\<open>Series.equals\<close>: the same dtype, the same labels in the same order and the
  same value under each; two missing values in the same place count as equal. Two
  Series of different dtype are not equal, whatever their values.
\<close>

definition equals :: "series \<Rightarrow> series \<Rightarrow> bool" where
  "equals a b \<longleftrightarrow> dtype_of a = dtype_of b \<and> cells a = cells b"

text \<open>\<^verbatim>\<open>Series.to_dict()\<close>: a later value under a label replaces an earlier one.\<close>

definition to_dict :: "series \<Rightarrow> (string \<times> val) list" where
  "to_dict s = foldl (\<lambda>d (k, v). AList.update k v d) [] (cells s)"

section \<open>Building the UPDATE statement\<close>

text \<open>
  \<^verbatim>\<open>col.replace(" ", "_").replace("(", "").replace(")", "").replace(".", "")\<close>
\<close>

definition clean :: "string \<Rightarrow> string" where
  "clean col =
     filter (\<lambda>c. c \<noteq> CHR ''.'')
       (filter (\<lambda>c. c \<noteq> CHR '')'')
         (filter (\<lambda>c. c \<noteq> CHR ''('')
           (map (\<lambda>c. if c = CHR '' '' then CHR ''_'' else c) col)))"

text \<open>
  The loop over \<^verbatim>\<open>raw_update_data.items()\<close>. Python's \<^verbatim>\<open>hash\<close> of a string
  changes from one process to the next, so it is a parameter.
  \<^verbatim>\<open>
  for col, val in raw_update_data.items():
      clean_key = col.replace(...)
      if clean_key in clean_update_data:
          clean_key = f"{clean_key}_{hash(col)}"
      clean_update_data[clean_key] = val
      set_clauses.append(f'"{col}" = :{clean_key}')
  \<close>
\<close>

fun bind_columns ::
  "(string \<Rightarrow> int) \<Rightarrow> (string \<times> val) list \<Rightarrow> (string \<times> val) list \<Rightarrow> (string \<times> string) list
     \<Rightarrow> (string \<times> val) list \<times> (string \<times> string) list" where
  "bind_columns hash [] clean_update_data set_clauses = (clean_update_data, set_clauses)"
| "bind_columns hash ((col, v) # items) clean_update_data set_clauses =
     (let clean_key = clean col;
          clean_key = (if clean_key \<in> fst ` set clean_update_data
                       then clean_key @ ''_'' @ string_of_int (hash col) else clean_key)
      in bind_columns hash items (AList.update clean_key v clean_update_data)
           (set_clauses @ [(col, clean_key)]))"

definition update_stmt :: "(string \<Rightarrow> int) \<Rightarrow> string \<Rightarrow> int \<Rightarrow> series \<Rightarrow> stmt" where
  "update_stmt hash table_name rid row_new =
     (case bind_columns hash (to_dict row_new) [] [] of
        (clean_update_data, set_clauses) \<Rightarrow>
          Update table_name set_clauses (AList.update ''rowid'' (IntV rid) clean_update_data))"

section \<open>The connection\<close>

definition begin_trans :: "'db \<Rightarrow> 'db conn" where
  "begin_trans d = \<lparr>committed = d, work = d, sent = []\<rparr>"

text \<open>
  \<^verbatim>\<open>conn.execute\<close> (and \<^verbatim>\<open>to_sql\<close> on the connection): the statement runs on
  the working state; a failure of the engine is raised as an exception with the
  engine's message.
\<close>

definition execute :: "'db backend \<Rightarrow> stmt \<Rightarrow> 'db conn \<Rightarrow> (exn + unit) \<times> 'db conn" where
  "execute ex s c =
     (case ex s (work c) of
        Inl m \<Rightarrow> (Inl (DBError m), c\<lparr>sent := sent c @ [(s, Some m)]\<rparr>)
      | Inr d \<Rightarrow> (Inr (), c\<lparr>work := d, sent := sent c @ [(s, None)]\<rparr>))"

definition commit :: "'db conn \<Rightarrow> 'db" where
  "commit c = work c"

definition rollback :: "'db conn \<Rightarrow> 'db" where
  "rollback c = committed c"

section \<open>save\_changes\<close>

text \<open>
  The loop \<^verbatim>\<open>for rid in common_ids\<close>, over the identifiers in the order the set
  gives them, with \<^verbatim>\<open>changes_count\<close> as accumulator.
\<close>

fun update_loop ::
  "'db backend \<Rightarrow> (string \<Rightarrow> int) \<Rightarrow> string \<Rightarrow> indexed \<Rightarrow> indexed \<Rightarrow> int list \<Rightarrow> nat \<Rightarrow> 'db conn
     \<Rightarrow> (exn + nat) \<times> 'db conn" where
  "update_loop ex hash table_name existing_rows_edited existing_rows_orig [] changes_count c =
     (Inr changes_count, c)"
| "update_loop ex hash table_name existing_rows_edited existing_rows_orig (rid # rids) changes_count c =
     (case loc existing_rows_edited rid of
        Inl e \<Rightarrow> (Inl e, c)
      | Inr row_new \<Rightarrow>
          (case loc existing_rows_orig rid of
             Inl e \<Rightarrow> (Inl e, c)
           | Inr row_orig \<Rightarrow>
               if \<not> equals row_new row_orig then
                 (case execute ex (update_stmt hash table_name rid row_new) c of
                    (Inl e, c') \<Rightarrow> (Inl e, c')
                  | (Inr u, c') \<Rightarrow>
                      update_loop ex hash table_name existing_rows_edited existing_rows_orig
                        rids (changes_count + 1) c')
               else
                 update_loop ex hash table_name existing_rows_edited existing_rows_orig
                   rids changes_count c))"

text \<open>
  The body of the \<^verbatim>\<open>try\<close> after the check of the \<^verbatim>\<open>rowid\<close> column, up to
  \<^verbatim>\<open>trans.commit()\<close>. It gives the exception that left it, or the three counts of
  the success message (added, deleted, updated). Python does not fix the order in
  which a set of integers is iterated; the loop takes them in ascending order here.
\<close>

definition deleted_ids :: "int set \<Rightarrow> int set \<Rightarrow> int set" where
  "deleted_ids orig_ids current_ids = orig_ids - current_ids"

definition common_ids :: "int set \<Rightarrow> int set \<Rightarrow> int set" where
  "common_ids orig_ids current_ids = orig_ids \<inter> current_ids"

definition delete_phase :: "'db backend \<Rightarrow> string \<Rightarrow> int set \<Rightarrow> 'db conn \<Rightarrow> (exn + unit) \<times> 'db conn" where
  "delete_phase ex table_name del c =
     (if del \<noteq> {} then execute ex (Delete table_name del) c else (Inr (), c))"

definition insert_phase :: "'db backend \<Rightarrow> string \<Rightarrow> frame \<Rightarrow> 'db conn \<Rightarrow> (exn + unit) \<times> 'db conn" where
  "insert_phase ex table_name new_rows c =
     (if rows new_rows \<noteq> [] then
        (let rows_to_insert = drop_columns ''rowid'' new_rows
         in execute ex (Insert table_name (columns rows_to_insert) (rows rows_to_insert)) c)
      else (Inr (), c))"

definition update_phase ::
  "'db backend \<Rightarrow> (string \<Rightarrow> int) \<Rightarrow> string \<Rightarrow> frame \<Rightarrow> frame \<Rightarrow> int set \<Rightarrow> 'db conn
     \<Rightarrow> (exn + nat) \<times> 'db conn" where
  "update_phase ex hash table_name original_df edited_df common c =
     (let existing_rows_edited = set_index (select_isin common edited_df);
          existing_rows_orig = set_index (select_isin common original_df)
      in update_loop ex hash table_name existing_rows_edited existing_rows_orig
           (sorted_list_of_set common) 0 c)"

definition body ::
  "'db backend \<Rightarrow> (string \<Rightarrow> int) \<Rightarrow> string \<Rightarrow> frame \<Rightarrow> frame \<Rightarrow> 'db conn
     \<Rightarrow> (exn + nat \<times> nat \<times> nat) \<times> 'db conn" where
  "body ex hash table_name original_df edited_df c =
     (case get_ids original_df of
        Inl e \<Rightarrow> (Inl e, c)
      | Inr orig_ids \<Rightarrow>
     (case get_ids edited_df of
        Inl e \<Rightarrow> (Inl e, c)
      | Inr current_ids \<Rightarrow>
     (let del = deleted_ids orig_ids current_ids in
      case delete_phase ex table_name del c of
        (Inl e, c1) \<Rightarrow> (Inl e, c1)
      | (Inr u, c1) \<Rightarrow>
     (let new_rows = select_isna edited_df in
      case insert_phase ex table_name new_rows c1 of
        (Inl e, c2) \<Rightarrow> (Inl e, c2)
      | (Inr u, c2) \<Rightarrow>
     (case update_phase ex hash table_name original_df edited_df
             (common_ids orig_ids current_ids) c2 of
        (Inl e, c3) \<Rightarrow> (Inl e, c3)
      | (Inr changes_count, c3) \<Rightarrow>
          (Inr (length (rows new_rows), card del, changes_count), c3))))))"

definition success_text :: "nat \<Rightarrow> nat \<Rightarrow> nat \<Rightarrow> string" where
  "success_text added deleted updated =
     ''Successfully saved changes! (Added: '' @ string_of_nat added @ '', Deleted: ''
       @ string_of_nat deleted @ '', Updated: '' @ string_of_nat updated @ '')''"

definition trigger_key :: "string \<Rightarrow> string" where
  "trigger_key table_name = ''editor_'' @ table_name @ ''_trigger''"

definition get_flag :: "(string \<rightharpoonup> bool) \<Rightarrow> string \<Rightarrow> bool" where
  "get_flag flags k = (case flags k of None \<Rightarrow> False | Some b \<Rightarrow> b)"

text \<open>
  \<^verbatim>\<open>save_changes(table_name, original_df, edited_df, engine)\<close>. The result is the
  world after the call and the statements that were sent.
  \<^item> Without a \<^verbatim>\<open>rowid\<close> column in \<^verbatim>\<open>original_df\<close> the function shows an
    error and returns; leaving the \<^verbatim>\<open>with\<close> block closes the connection, which
    discards the transaction.
  \<^item> If the body ends, the transaction is committed, the success message is stored
    and the trigger flag of the table is negated.
  \<^item> If the body raises, the transaction is rolled back and the error message is
    stored.
\<close>

definition save_changes ::
  "'db backend \<Rightarrow> (string \<Rightarrow> int) \<Rightarrow> string \<Rightarrow> frame \<Rightarrow> frame \<Rightarrow> 'db world
     \<Rightarrow> 'db world \<times> (stmt \<times> string option) list" where
  "save_changes ex hash table_name original_df edited_df w =
     (let c = begin_trans (db w) in
      if ''rowid'' \<notin> set (columns original_df) then
        (w\<lparr>db := rollback c,
           page_errors := page_errors w @ [''Cannot save changes: 'rowid' column missing.'']\<rparr>,
         sent c)
      else
        (case body ex hash table_name original_df edited_df c of
           (Inr (added, deleted, updated), c') \<Rightarrow>
             (w\<lparr>db := commit c',
                success_message := Some (success_text added deleted updated),
                session_flags := (session_flags w)(trigger_key table_name \<mapsto>
                                   \<not> get_flag (session_flags w) (trigger_key table_name))\<rparr>,
              sent c')
         | (Inl e, c') \<Rightarrow>
             (w\<lparr>db := rollback c',
                error_message := Some (''Error saving changes: '' @ str_exn e)\<rparr>,
              sent c')))"

section \<open>Well-formed snapshots\<close>

text \<open>
  The frames \<^verbatim>\<open>save_changes\<close> is called with come from
  \<^verbatim>\<open>SELECT rowid, * FROM t\<close> and from the grid widget over that frame: the header
  has a \<^verbatim>\<open>rowid\<close> column and no label twice, every row has a cell for each
  column, the \<^verbatim>\<open>rowid\<close> cells are numbers or missing, and no identifier occurs in
  two rows. Every column has a dtype and every cell a value of the dtype of its
  column.
\<close>

definition is_text :: "val \<Rightarrow> bool" where
  "is_text v = (case v of StrV s \<Rightarrow> True | _ \<Rightarrow> False)"

fun fits :: "dtype \<Rightarrow> val \<Rightarrow> bool" where
  "fits Int64 v = (case v of IntV i \<Rightarrow> True | _ \<Rightarrow> False)"
| "fits Float64 v = (case v of StrV s \<Rightarrow> False | _ \<Rightarrow> True)"
| "fits Object v = True"

definition wf_frame :: "frame \<Rightarrow> bool" where
  "wf_frame df \<longleftrightarrow>
     ''rowid'' \<in> set (columns df) \<and> distinct (columns df) \<and>
     length (dtypes df) = length (columns df) \<and>
     list_all (\<lambda>r. length r = length (columns df) \<and> \<not> is_text (rowid_cell (columns df) r)
                  \<and> list_all (\<lambda>(d, v). fits d v) (zip (dtypes df) r)) (rows df) \<and>
     distinct (dropna (map (rowid_cell (columns df)) (rows df)))"

text \<open>The row of a snapshot that carries a given identifier.\<close>

definition row_with_id :: "frame \<Rightarrow> int \<Rightarrow> val list option" where
  "row_with_id df rid = find (\<lambda>r. rowid_cell (columns df) r = IntV rid) (rows df)"

text \<open>
  The Series that \<^verbatim>\<open>.loc\<close> gives for a row of a frame: the common dtype of
  the columns but \<^verbatim>\<open>rowid\<close>, and each label but \<^verbatim>\<open>rowid\<close> with the value
  of the row under it.
\<close>

definition row_dtype :: "frame \<Rightarrow> dtype" where
  "row_dtype df = common_dtype (drop_label ''rowid'' (columns df) (dtypes df))"

definition series_of :: "frame \<Rightarrow> val list \<Rightarrow> series" where
  "series_of df r =
     \<lparr>dtype_of = row_dtype df,
      cells = filter (\<lambda>(c, v). c \<noteq> ''rowid'') (zip (columns df) r)\<rparr>"

text \<open>
  A row of the edited snapshot is foreign to the original one when its identifier is
  a number that no row of the original snapshot has.
\<close>

definition foreign :: "int set \<Rightarrow> string list \<Rightarrow> val list \<Rightarrow> bool" where
  "foreign orig_ids cols r = (case rowid_cell cols r of IntV i \<Rightarrow> i \<notin> orig_ids | _ \<Rightarrow> False)"

definition without_foreign :: "int set \<Rightarrow> frame \<Rightarrow> frame" where
  "without_foreign orig_ids df = df\<lparr>rows := filter (\<lambda>r. \<not> foreign orig_ids (columns df) r) (rows df)\<rparr>"

section \<open>Reading the record of statements\<close>

definition all_accepted :: "(stmt \<times> string option) list \<Rightarrow> bool" where
  "all_accepted tr = list_all (\<lambda>x. snd x = None) tr"

text \<open>
  What a run from connection \<open>c\<close> to connection \<open>c'\<close> with result \<open>r\<close> keeps: the
  committed state, and the link between the result and the failures on record.
\<close>

definition outcome_inv :: "'db conn \<Rightarrow> exn + 'a \<Rightarrow> 'db conn \<Rightarrow> bool" where
  "outcome_inv c r c' \<longleftrightarrow>
     committed c' = committed c \<and>
     (case r of
        Inr x \<Rightarrow> all_accepted (sent c')
      | Inl e \<Rightarrow> (\<forall>s m. (s, Some m) \<in> set (sent c') \<longrightarrow> e = DBError m))"

text \<open>
  The statements of a run in which the engine accepts every statement, in the order
  they are sent: the UPDATE statements of the loop, and before them the DELETE and
  the INSERT.
\<close>

fun planned_updates ::
  "(string \<Rightarrow> int) \<Rightarrow> string \<Rightarrow> indexed \<Rightarrow> indexed \<Rightarrow> int list \<Rightarrow> stmt list" where
  "planned_updates hash table_name existing_rows_edited existing_rows_orig [] = []"
| "planned_updates hash table_name existing_rows_edited existing_rows_orig (rid # rids) =
     (case loc existing_rows_edited rid of
        Inl e \<Rightarrow> []
      | Inr row_new \<Rightarrow>
          (case loc existing_rows_orig rid of
             Inl e \<Rightarrow> []
           | Inr row_orig \<Rightarrow>
               (if \<not> equals row_new row_orig then [update_stmt hash table_name rid row_new] else [])
               @ planned_updates hash table_name existing_rows_edited existing_rows_orig rids))"

definition plan :: "(string \<Rightarrow> int) \<Rightarrow> string \<Rightarrow> frame \<Rightarrow> frame \<Rightarrow> stmt list" where
  "plan hash table_name original_df edited_df =
     (case get_ids original_df of
        Inl e \<Rightarrow> []
      | Inr orig_ids \<Rightarrow>
     (case get_ids edited_df of
        Inl e \<Rightarrow> []
      | Inr current_ids \<Rightarrow>
          (if deleted_ids orig_ids current_ids \<noteq> {}
           then [Delete table_name (deleted_ids orig_ids current_ids)] else [])
          @ (if rows (select_isna edited_df) \<noteq> []
             then [Insert table_name (columns (drop_columns ''rowid'' (select_isna edited_df)))
                     (rows (drop_columns ''rowid'' (select_isna edited_df)))]
             else [])
          @ planned_updates hash table_name
              (set_index (select_isin (common_ids orig_ids current_ids) edited_df))
              (set_index (select_isin (common_ids orig_ids current_ids) original_df))
              (sorted_list_of_set (common_ids orig_ids current_ids))))"

section \<open>Concrete inputs\<close>

text \<open>
  Two storage engines to run the reconciler on. The first accepts every statement
  and keeps them as its state; the second does the same but refuses every UPDATE, as
  a table whose constraint the new values violate.
\<close>

definition accept_all :: "stmt list backend" where
  "accept_all s d = Inr (d @ [s])"

definition refuse_updates :: "stmt list backend" where
  "refuse_updates s d =
     (case s of
        Update t sc ps \<Rightarrow> Inl ''CHECK constraint failed''
      | _ \<Rightarrow> Inr (d @ [s]))"

definition start_world :: "stmt list world" where
  "start_world =
     \<lparr>db = [], success_message = None, error_message = None,
      session_flags = Map.empty, page_errors = []\<rparr>"

definition no_hash :: "string \<Rightarrow> int" where
  "no_hash s = 0"

text \<open>The snapshots of the scenarios of the specification, over one data column.\<close>

definition snapshot_a_b :: frame where
  "snapshot_a_b = \<lparr>columns = [''rowid'', ''value''], dtypes = [Int64, Object],
                   rows = [[IntV 1, StrV ''a''], [IntV 2, StrV ''b'']]\<rparr>"

definition snapshot_a_3b :: frame where
  "snapshot_a_3b = \<lparr>columns = [''rowid'', ''value''], dtypes = [Int64, Object],
                    rows = [[IntV 1, StrV ''a''], [IntV 3, StrV ''b'']]\<rparr>"

definition snapshot_a :: frame where
  "snapshot_a = \<lparr>columns = [''rowid'', ''value''], dtypes = [Int64, Object], rows = [[IntV 1, StrV ''a'']]\<rparr>"

definition snapshot_z :: frame where
  "snapshot_z = \<lparr>columns = [''rowid'', ''value''], dtypes = [Int64, Object], rows = [[IntV 1, StrV ''z'']]\<rparr>"

definition snapshot_z_b :: frame where
  "snapshot_z_b = \<lparr>columns = [''rowid'', ''value''], dtypes = [Int64, Object],
                   rows = [[IntV 1, StrV ''z''], [IntV 2, StrV ''b'']]\<rparr>"

definition snapshot_a_new :: frame where
  "snapshot_a_new = \<lparr>columns = [''rowid'', ''value''], dtypes = [Float64, Object],
                     rows = [[IntV 1, StrV ''a''], [Null, StrV ''b'']]\<rparr>"

definition snapshot_no_rowid :: frame where
  "snapshot_no_rowid = \<lparr>columns = [''value''], dtypes = [Object], rows = [[StrV ''a'']]\<rparr>"

definition snapshot_a_newb :: frame where
  "snapshot_a_newb = \<lparr>columns = [''rowid'', ''value''], dtypes = [Float64, Object],
                      rows = [[IntV 1, StrV ''a''], [Null, StrV ''b'']]\<rparr>"



section \<open>The storage engine and the identifiers of the stored rows\<close>

text \<open>
  What \<^verbatim>\<open>save_changes\<close> relies on from the storage engine, for the table it
  writes to and a reading \<open>ident\<close> of a database state that gives the identifiers of
  the rows of that table in storage order:
  \<^item> a DELETE removes the rows whose identifier is listed, and leaves the others;
  \<^item> an INSERT adds one row for each row it carries, after the rows that are there,
    under identifiers that no row has;
  \<^item> an UPDATE whose SET clause names no \<^verbatim>\<open>rowid\<close> column leaves every row under
    its identifier.
\<close>

definition identifier_contract :: "'db backend \<Rightarrow> ('db \<Rightarrow> int list) \<Rightarrow> string \<Rightarrow> bool" where
  "identifier_contract ex ident table_name \<longleftrightarrow>
     (\<forall>ids d d'. ex (Delete table_name ids) d = Inr d' \<longrightarrow>
        ident d' = filter (\<lambda>i. i \<notin> ids) (ident d)) \<and>
     (\<forall>cols rws d d'. ex (Insert table_name cols rws) d = Inr d' \<longrightarrow>
        (\<exists>new. ident d' = ident d @ new \<and> length new = length rws
               \<and> set new \<inter> set (ident d) = {})) \<and>
     (\<forall>sc ps d d'. ex (Update table_name sc ps) d = Inr d' \<longrightarrow> ''rowid'' \<notin> fst ` set sc \<longrightarrow>
        ident d' = ident d)"

text \<open>
  An engine of that kind over one table, each row an identifier and the values of
  its columns. A new row gets the identifier after the greatest one. An UPDATE
  assigns each column of its SET clause the value bound to the key, in the rows that
  the WHERE clause \<^verbatim>\<open>rowid = :rowid\<close> selects; a SET clause that names
  \<^verbatim>\<open>rowid\<close> moves the row to the identifier it gives. After a statement the
  engine checks the constraint of the table and refuses with its message.
\<close>

type_synonym table = "(int \<times> (string \<times> val) list) list"

definition next_rowid :: "table \<Rightarrow> int" where
  "next_rowid tbl = (case map fst tbl of [] \<Rightarrow> 1 | i # js \<Rightarrow> foldr max js i + 1)"

fun insert_rows :: "string list \<Rightarrow> val list list \<Rightarrow> table \<Rightarrow> table" where
  "insert_rows cols [] tbl = tbl"
| "insert_rows cols (r # rs) tbl = insert_rows cols rs (tbl @ [(next_rowid tbl, zip cols r)])"

definition delete_rows :: "int set \<Rightarrow> table \<Rightarrow> table" where
  "delete_rows ids tbl = filter (\<lambda>row. fst row \<notin> ids) tbl"

definition set_column ::
  "(string \<times> val) list \<Rightarrow> int \<times> (string \<times> val) list \<Rightarrow> string \<times> string
     \<Rightarrow> int \<times> (string \<times> val) list" where
  "set_column ps row cl =
     (case map_of ps (snd cl) of
        None \<Rightarrow> row
      | Some v \<Rightarrow>
          if fst cl = ''rowid'' then (case v of IntV j \<Rightarrow> (j, snd row) | _ \<Rightarrow> row)
          else (fst row, AList.update (fst cl) v (snd row)))"

definition update_rows :: "(string \<times> string) list \<Rightarrow> (string \<times> val) list \<Rightarrow> table \<Rightarrow> table" where
  "update_rows sc ps tbl =
     map (\<lambda>row. if map_of ps ''rowid'' = Some (IntV (fst row)) then foldl (set_column ps) row sc
                 else row) tbl"

definition run_stmt :: "string \<Rightarrow> stmt \<Rightarrow> table \<Rightarrow> string + table" where
  "run_stmt name s tbl =
     (case s of
        Delete t ids \<Rightarrow>
          if t = name then Inr (delete_rows ids tbl) else Inl (''no such table: '' @ t)
      | Insert t cols rws \<Rightarrow>
          if t = name then Inr (insert_rows cols rws tbl) else Inl (''no such table: '' @ t)
      | Update t sc ps \<Rightarrow>
          if t \<noteq> name then Inl (''no such table: '' @ t)
          else if list_ex (\<lambda>cl. map_of ps (snd cl) = None) sc
          then Inl ''A value is required for bind parameter''
          else Inr (update_rows sc ps tbl))"

definition table_engine :: "string \<Rightarrow> (table \<Rightarrow> string option) \<Rightarrow> table backend" where
  "table_engine name check s tbl =
     (case run_stmt name s tbl of
        Inl m \<Rightarrow> Inl m
      | Inr tbl' \<Rightarrow> (case check tbl' of Some m \<Rightarrow> Inl m | None \<Rightarrow> Inr tbl'))"

definition no_check :: "table \<Rightarrow> string option" where
  "no_check tbl = None"

definition table_a_b :: "table world" where
  "table_a_b =
     \<lparr>db = [(1, [(''value'', StrV ''a'')]), (2, [(''value'', StrV ''b'')])],
      success_message = None, error_message = None,
      session_flags = Map.empty, page_errors = []\<rparr>"

section \<open>A failing statement\<close>

lemma col_index_None: "col_index c cols = None \<longleftrightarrow> c \<notin> set cols"
  by (induction cols) auto

lemma get_ids_missing: "''rowid'' \<notin> set (columns df) \<Longrightarrow> \<exists>e. get_ids df = Inl e"
  by (simp add: get_ids_def getitem_def col_index_None[THEN iffD2])

lemma execute_inv:
  assumes "all_accepted (sent c)" and "execute ex s c = (r, c')"
  shows "outcome_inv c r c'"
  using assms
  by (fastforce simp: execute_def outcome_inv_def all_accepted_def list_all_iff split: sum.splits)

lemma outcome_inv_refl_Inr: "all_accepted (sent c) \<Longrightarrow> outcome_inv c (Inr x) c"
  by (simp add: outcome_inv_def)

lemma outcome_inv_refl_Inl: "all_accepted (sent c) \<Longrightarrow> outcome_inv c (Inl e) c"
  by (auto simp: outcome_inv_def all_accepted_def list_all_iff)

lemma outcome_inv_trans:
  "outcome_inv c (Inr x) c1 \<Longrightarrow> outcome_inv c1 r c2 \<Longrightarrow> outcome_inv c r c2"
  by (auto simp: outcome_inv_def split: sum.splits)

lemma outcome_inv_accepted: "outcome_inv c (Inr x) c1 \<Longrightarrow> all_accepted (sent c1)"
  by (simp add: outcome_inv_def)

text \<open>The loop keeps the invariant: induction on the identifiers still to visit.\<close>

lemma update_loop_inv:
  "all_accepted (sent c) \<Longrightarrow> update_loop ex hash t ee eo rids n c = (r, c') \<Longrightarrow> outcome_inv c r c'"
proof (induction rids arbitrary: n c)
  case Nil
  then show ?case by (auto simp: outcome_inv_refl_Inr)
next
  case (Cons rid rids)
  show ?case
  proof (cases "loc ee rid")
    case (Inl e)
    with Cons.prems show ?thesis by (auto simp: outcome_inv_refl_Inl)
  next
    case rn: (Inr row_new)
    show ?thesis
    proof (cases "loc eo rid")
      case (Inl e)
      with rn Cons.prems show ?thesis by (auto simp: outcome_inv_refl_Inl)
    next
      case ro: (Inr row_orig)
      show ?thesis
      proof (cases "equals row_new row_orig")
        case True
        with rn ro Cons.prems Cons.IH show ?thesis by auto
      next
        case False
        obtain r1 c1 where ex1: "execute ex (update_stmt hash t rid row_new) c = (r1, c1)"
          by (cases "execute ex (update_stmt hash t rid row_new) c")
        have inv1: "outcome_inv c r1 c1" using execute_inv[OF Cons.prems(1) ex1] .
        show ?thesis
        proof (cases r1)
          case (Inl e)
          with rn ro False ex1 Cons.prems(2) have "r = Inl e" "c' = c1" by auto
          with inv1 Inl show ?thesis by (simp add: outcome_inv_def)
        next
          case (Inr u)
          with rn ro False ex1 Cons.prems(2)
          have "update_loop ex hash t ee eo rids (n + 1) c1 = (r, c')" by auto
          from Cons.IH[OF _ this] inv1 Inr show ?thesis
            by (metis outcome_inv_trans outcome_inv_accepted)
        qed
      qed
    qed
  qed
qed

lemma delete_phase_inv:
  "all_accepted (sent c) \<Longrightarrow> delete_phase ex t del c = (r, c') \<Longrightarrow> outcome_inv c r c'"
  by (auto simp: delete_phase_def execute_inv outcome_inv_refl_Inr split: if_splits)

lemma insert_phase_inv:
  "all_accepted (sent c) \<Longrightarrow> insert_phase ex t nr c = (r, c') \<Longrightarrow> outcome_inv c r c'"
  by (auto simp: insert_phase_def Let_def execute_inv outcome_inv_refl_Inr split: if_splits)

lemma update_phase_inv:
  "all_accepted (sent c) \<Longrightarrow> update_phase ex hash t od ed cm c = (r, c') \<Longrightarrow> outcome_inv c r c'"
  by (auto simp: update_phase_def Let_def update_loop_inv)

lemma body_inv:
  assumes acc: "all_accepted (sent c)" and b: "body ex hash t od ed c = (r, c')"
  shows "outcome_inv c r c'"
proof (cases "get_ids od")
  case (Inl e)
  with b acc show ?thesis by (auto simp: body_def outcome_inv_refl_Inl)
next
  case oi: (Inr orig_ids)
  show ?thesis
  proof (cases "get_ids ed")
    case (Inl e)
    with oi b acc show ?thesis by (auto simp: body_def outcome_inv_refl_Inl)
  next
    case ci: (Inr current_ids)
    obtain r1 c1 where d: "delete_phase ex t (deleted_ids orig_ids current_ids) c = (r1, c1)"
      by (cases "delete_phase ex t (deleted_ids orig_ids current_ids) c")
    note i1 = delete_phase_inv[OF acc d]
    show ?thesis
    proof (cases r1)
      case (Inl e)
      with oi ci d b have "r = Inl e" "c' = c1" by (auto simp: body_def Let_def)
      with i1 Inl show ?thesis by (simp add: outcome_inv_def)
    next
      case r1: (Inr u1)
      obtain r2 c2 where i: "insert_phase ex t (select_isna ed) c1 = (r2, c2)"
        by (cases "insert_phase ex t (select_isna ed) c1")
      have acc1: "all_accepted (sent c1)" using i1 r1 by (simp add: outcome_inv_def)
      note i2 = insert_phase_inv[OF acc1 i]
      show ?thesis
      proof (cases r2)
        case (Inl e)
        with oi ci d r1 i b have "r = Inl e" "c' = c2" by (auto simp: body_def Let_def)
        with i1 i2 r1 Inl show ?thesis by (simp add: outcome_inv_def)
      next
        case r2: (Inr u2)
        obtain r3 c3 where u: "update_phase ex hash t od ed (common_ids orig_ids current_ids) c2 = (r3, c3)"
          by (cases "update_phase ex hash t od ed (common_ids orig_ids current_ids) c2")
        have acc2: "all_accepted (sent c2)" using i2 r2 by (simp add: outcome_inv_def)
        note i3 = update_phase_inv[OF acc2 u]
        show ?thesis
        proof (cases r3)
          case (Inl e)
          with oi ci d r1 i r2 u b have "r = Inl e" "c' = c3" by (auto simp: body_def Let_def)
          with i1 i2 i3 r1 r2 Inl show ?thesis by (simp add: outcome_inv_def)
        next
          case (Inr n)
          with oi ci d r1 i r2 u b have "\<exists>x. r = Inr x" "c' = c3" by (auto simp: body_def Let_def)
          with i1 i2 i3 r1 r2 Inr show ?thesis by (auto simp: outcome_inv_def)
        qed
      qed
    qed
  qed
qed

text \<open>
  If a statement on record failed, the call leaves the world as it was, but for the
  error message, which is the fixed label followed by the message of the engine.
\<close>

lemma save_changes_failed:
  assumes "save_changes ex hash t od ed w = (w', tr)" and "(s, Some m) \<in> set tr"
  shows "w' = w\<lparr>error_message := Some (''Error saving changes: '' @ m)\<rparr>"
proof -
  let ?c = "begin_trans (db w)"
  have acc: "all_accepted (sent ?c)" by (simp add: begin_trans_def all_accepted_def)
  show ?thesis
  proof (cases "''rowid'' \<notin> set (columns od)")
    case True
    with assms show ?thesis by (auto simp: save_changes_def Let_def begin_trans_def)
  next
    case False
    obtain r c' where b: "body ex hash t od ed ?c = (r, c')" by (cases "body ex hash t od ed ?c")
    note inv = body_inv[OF acc b]
    show ?thesis
    proof (cases r)
      case (Inl e)
      with False b assms have tr: "tr = sent c'"
        and w': "w' = w\<lparr>db := rollback c', error_message := Some (''Error saving changes: '' @ str_exn e)\<rparr>"
        by (auto simp: save_changes_def Let_def)
      from inv Inl tr assms(2) have "e = DBError m" by (auto simp: outcome_inv_def)
      moreover from inv have "rollback c' = db w"
        by (simp add: outcome_inv_def rollback_def begin_trans_def)
      ultimately show ?thesis using w' by simp
    next
      case (Inr x)
      with False b assms have tr: "tr = sent c'"
        by (auto simp: save_changes_def Let_def split: prod.splits)
      with inv Inr assms(2) show ?thesis
        by (auto simp: outcome_inv_def all_accepted_def list_all_iff)
    qed
  qed
qed

section \<open>The statements sent and the plan\<close>

lemma all_accepted_append [simp]: "all_accepted (a @ b) \<longleftrightarrow> all_accepted a \<and> all_accepted b"
  by (simp add: all_accepted_def)

lemma all_accepted_Nil [simp]: "all_accepted []"
  by (simp add: all_accepted_def)

lemma all_accepted_Cons [simp]: "all_accepted (x # xs) \<longleftrightarrow> snd x = None \<and> all_accepted xs"
  by (simp add: all_accepted_def)

lemma execute_trace:
  "execute ex s c = (r, c') \<Longrightarrow>
     \<exists>x. sent c' = sent c @ [(s, x)] \<and> (case r of Inr u \<Rightarrow> x = None | Inl e \<Rightarrow> x \<noteq> None)"
  by (auto simp: execute_def split: sum.splits)

lemma delete_phase_trace:
  "delete_phase ex t del c = (r, c') \<Longrightarrow>
     \<exists>dn. sent c' = sent c @ dn \<and> map fst dn = (if del \<noteq> {} then [Delete t del] else [])
          \<and> (case r of Inr u \<Rightarrow> all_accepted dn | Inl e \<Rightarrow> \<not> all_accepted dn)"
  by (auto simp: delete_phase_def all_accepted_def dest!: execute_trace split: if_splits sum.splits)

lemma insert_phase_trace:
  "insert_phase ex t nr c = (r, c') \<Longrightarrow>
     \<exists>dn. sent c' = sent c @ dn
          \<and> map fst dn = (if rows nr \<noteq> []
                           then [Insert t (columns (drop_columns ''rowid'' nr)) (rows (drop_columns ''rowid'' nr))]
                           else [])
          \<and> (case r of Inr u \<Rightarrow> all_accepted dn | Inl e \<Rightarrow> \<not> all_accepted dn)"
  by (auto simp: insert_phase_def Let_def all_accepted_def dest!: execute_trace split: if_splits sum.splits)

lemma update_loop_trace:
  "update_loop ex hash t ee eo rids n c = (r, c') \<Longrightarrow>
     \<exists>dn rest. sent c' = sent c @ dn
        \<and> planned_updates hash t ee eo rids = map fst dn @ rest
        \<and> (all_accepted dn \<longrightarrow> rest = [])"
proof (induction rids arbitrary: n c)
  case Nil
  then show ?case by auto
next
  case (Cons rid rids)
  show ?case
  proof (cases "loc ee rid")
    case (Inl e)
    with Cons.prems show ?thesis by auto
  next
    case rn: (Inr row_new)
    show ?thesis
    proof (cases "loc eo rid")
      case (Inl e)
      with rn Cons.prems show ?thesis by auto
    next
      case ro: (Inr row_orig)
      show ?thesis
      proof (cases "equals row_new row_orig")
        case True
        with rn ro Cons.prems have "update_loop ex hash t ee eo rids n c = (r, c')" by simp
        from Cons.IH[OF this] rn ro True show ?thesis by simp
      next
        case False
        let ?s = "update_stmt hash t rid row_new"
        obtain r1 c1 where ex1: "execute ex ?s c = (r1, c1)"
          by (cases "execute ex ?s c")
        from execute_trace[OF ex1] obtain x where
          x: "sent c1 = sent c @ [(?s, x)]" "case r1 of Inr u \<Rightarrow> x = None | Inl e \<Rightarrow> x \<noteq> None"
          by blast
        show ?thesis
        proof (cases r1)
          case (Inl e)
          with rn ro False ex1 Cons.prems have "c' = c1" by auto
          moreover from Inl x(2) have "\<not> all_accepted [(?s, x)]" by (simp add: all_accepted_def)
          ultimately show ?thesis using x(1) rn ro False
            by (intro exI[of _ "[(?s, x)]"] exI[of _ "planned_updates hash t ee eo rids"]) auto
        next
          case (Inr u)
          with rn ro False ex1 Cons.prems
          have "update_loop ex hash t ee eo rids (n + 1) c1 = (r, c')" by auto
          from Cons.IH[OF this] obtain dn rest where
            d: "sent c' = sent c1 @ dn" "planned_updates hash t ee eo rids = map fst dn @ rest"
               "all_accepted dn \<longrightarrow> rest = []" by blast
          show ?thesis using d x(1) rn ro False
            by (intro exI[of _ "(?s, x) # dn"] exI[of _ rest]) simp
        qed
      qed
    qed
  qed
qed

lemma body_trace:
  assumes b: "body ex hash t od ed c = (r, c')"
  shows "\<exists>dn rest. sent c' = sent c @ dn \<and> plan hash t od ed = map fst dn @ rest
           \<and> (all_accepted dn \<longrightarrow> rest = [])"
proof (cases "get_ids od")
  case (Inl e)
  with b show ?thesis by (auto simp: body_def plan_def)
next
  case oi: (Inr orig_ids)
  show ?thesis
  proof (cases "get_ids ed")
    case (Inl e)
    with oi b show ?thesis by (auto simp: body_def plan_def)
  next
    case ci: (Inr current_ids)
    let ?del = "deleted_ids orig_ids current_ids"
    let ?com = "common_ids orig_ids current_ids"
    let ?p1 = "if ?del \<noteq> {} then [Delete t ?del] else []"
    let ?p2 = "if rows (select_isna ed) \<noteq> []
               then [Insert t (columns (drop_columns ''rowid'' (select_isna ed)))
                       (rows (drop_columns ''rowid'' (select_isna ed)))]
               else []"
    let ?p3 = "planned_updates hash t (set_index (select_isin ?com ed))
                 (set_index (select_isin ?com od)) (sorted_list_of_set ?com)"
    have pl: "plan hash t od ed = ?p1 @ ?p2 @ ?p3"
      using oi ci by (simp add: plan_def)
    obtain r1 c1 where d: "delete_phase ex t ?del c = (r1, c1)"
      by (cases "delete_phase ex t ?del c")
    from delete_phase_trace[OF d] obtain d1 where
      d1: "sent c1 = sent c @ d1" "map fst d1 = ?p1"
          "case r1 of Inr u \<Rightarrow> all_accepted d1 | Inl e \<Rightarrow> \<not> all_accepted d1" by blast
    show ?thesis
    proof (cases r1)
      case (Inl e)
      with oi ci d b have "c' = c1" by (auto simp: body_def Let_def)
      with d1 Inl pl show ?thesis
        by (intro exI[of _ d1] exI[of _ "?p2 @ ?p3"]) simp
    next
      case r1: (Inr u1)
      obtain r2 c2 where i: "insert_phase ex t (select_isna ed) c1 = (r2, c2)"
        by (cases "insert_phase ex t (select_isna ed) c1")
      from insert_phase_trace[OF i] obtain d2 where
        d2: "sent c2 = sent c1 @ d2" "map fst d2 = ?p2"
            "case r2 of Inr u \<Rightarrow> all_accepted d2 | Inl e \<Rightarrow> \<not> all_accepted d2" by blast
      show ?thesis
      proof (cases r2)
        case (Inl e)
        with oi ci d r1 i b have "c' = c2" by (auto simp: body_def Let_def)
        with d1 d2 Inl pl show ?thesis
          by (intro exI[of _ "d1 @ d2"] exI[of _ "?p3"]) simp
      next
        case r2: (Inr u2)
        obtain r3 c3 where u: "update_phase ex hash t od ed ?com c2 = (r3, c3)"
          by (cases "update_phase ex hash t od ed ?com c2")
        then have "update_loop ex hash t (set_index (select_isin ?com ed))
                 (set_index (select_isin ?com od)) (sorted_list_of_set ?com) 0 c2 = (r3, c3)"
          by (simp add: update_phase_def Let_def)
        from update_loop_trace[OF this] obtain d3 rest where
          d3: "sent c3 = sent c2 @ d3" "?p3 = map fst d3 @ rest" "all_accepted d3 \<longrightarrow> rest = []"
          by blast
        have "c' = c3" using oi ci d r1 i r2 u b
          by (cases r3) (auto simp: body_def Let_def)
        with d1 d2 d3 pl show ?thesis
          by (intro exI[of _ "d1 @ d2 @ d3"] exI[of _ rest]) simp
      qed
    qed
  qed
qed

lemma save_changes_trace:
  assumes "save_changes ex hash t od ed w = (w', tr)"
  shows "\<exists>rest. plan hash t od ed = map fst tr @ rest \<and> (all_accepted tr \<longrightarrow> rest = [])"
proof (cases "''rowid'' \<notin> set (columns od)")
  case True
  then obtain e where "get_ids od = Inl e" using get_ids_missing by blast
  then have "plan hash t od ed = []" by (simp add: plan_def)
  moreover from True assms have "tr = []" by (auto simp: save_changes_def Let_def begin_trans_def)
  ultimately show ?thesis by simp
next
  case False
  let ?c = "begin_trans (db w)"
  obtain r c' where b: "body ex hash t od ed ?c = (r, c')" by (cases "body ex hash t od ed ?c")
  with False assms have tr: "tr = sent c'"
    by (auto simp: save_changes_def Let_def split: sum.splits prod.splits)
  from body_trace[OF b] tr show ?thesis by (simp add: begin_trans_def)
qed

lemma sent_in_plan:
  assumes "save_changes ex hash t od ed w = (w', tr)" and "(s, x) \<in> set tr"
  shows "s \<in> set (plan hash t od ed)"
proof -
  from save_changes_trace[OF assms(1)] obtain rest where "plan hash t od ed = map fst tr @ rest"
    by blast
  moreover from assms(2) have "s \<in> fst ` set tr" by force
  ultimately show ?thesis by simp
qed


section \<open>Rows, identifiers and Series\<close>

lemma planned_updates_mem:
  "s \<in> set (planned_updates hash t ee eo rids) \<Longrightarrow>
     \<exists>rid rn ro. rid \<in> set rids \<and> loc ee rid = Inr rn \<and> loc eo rid = Inr ro
        \<and> \<not> equals rn ro \<and> s = update_stmt hash t rid rn"
proof (induction rids)
  case Nil
  then show ?case by simp
next
  case (Cons a rids)
  show ?case
  proof (cases "s \<in> set (planned_updates hash t ee eo rids)")
    case True
    from Cons.IH[OF this] show ?thesis by auto
  next
    case False
    show ?thesis
    proof (cases "loc ee a")
      case (Inl e)
      with Cons.prems show ?thesis by simp
    next
      case rn: (Inr rn)
      show ?thesis
      proof (cases "loc eo a")
        case (Inl e)
        with rn Cons.prems show ?thesis by simp
      next
        case ro: (Inr ro)
        from rn ro False Cons.prems have "\<not> equals rn ro" "s = update_stmt hash t a rn"
          by (auto split: if_splits)
        with rn ro show ?thesis
          by (intro exI[of _ a] exI[of _ rn] exI[of _ ro]) simp
      qed
    qed
  qed
qed


lemma planned_updates_none:
  "\<forall>i\<in>set rids. loc ee i = loc eo i \<Longrightarrow> planned_updates hash t ee eo rids = []"
  by (induction rids) (auto simp: equals_def split: sum.splits)

lemma bind_columns_set_clauses:
  "bind_columns hash items cud sc = (cud', sc') \<Longrightarrow> map fst sc' = map fst sc @ map fst items"
  by (induction items arbitrary: cud sc) (auto simp: Let_def)



lemma to_dict_keys_aux:
  "fst ` set (foldl (\<lambda>d (k, v). AList.update k v d) d s) = fst ` set d \<union> fst ` set s"
proof (induction s arbitrary: d)
  case Nil
  then show ?case by simp
next
  case (Cons p s)
  obtain k v where p: "p = (k, v)" by (cases p)
  show ?case by (simp add: Cons.IH dom_update p)
qed

lemma to_dict_keys: "fst ` set (to_dict s) = fst ` set (cells s)"
  by (simp add: to_dict_def to_dict_keys_aux)

lemma update_stmt_shape:
  "\<exists>sc ps. update_stmt hash t rid rn = Update t sc ps
      \<and> map fst sc = map fst (to_dict rn) \<and> map_of ps ''rowid'' = Some (IntV rid)"
proof -
  obtain cud sc where b: "bind_columns hash (to_dict rn) [] [] = (cud, sc)"
    by (cases "bind_columns hash (to_dict rn) [] []")
  from bind_columns_set_clauses[OF b] have "map fst sc = map fst (to_dict rn)" by simp
  with b show ?thesis by (simp add: update_stmt_def update_conv')
qed

lemma find_map_eq: "find P (map f xs) = map_option f (find (\<lambda>x. P (f x)) xs)"
  by (induction xs) auto

lemma find_filter: "find P (filter Q xs) = find (\<lambda>x. Q x \<and> P x) xs"
  by (induction xs) auto

lemma zip_drop_label:
  "zip (filter (\<lambda>c. c \<noteq> name) cols) (drop_label name cols r) = filter (\<lambda>(c, v). c \<noteq> name) (zip cols r)"
  unfolding drop_label_def
proof (induction cols arbitrary: r)
  case Nil
  then show ?case by simp
next
  case (Cons c cols)
  then show ?case by (cases r) auto
qed

lemma loc_select_isin:
  "rid \<in> ids \<Longrightarrow>
   loc (set_index (select_isin ids df)) rid =
     (case row_with_id df rid of
        None \<Rightarrow> Inl (KeyError (string_of_int rid))
      | Some r \<Rightarrow> Inr (series_of df r))"
proof -
  let ?f = "\<lambda>r. (rowid_cell (columns df) r, drop_label ''rowid'' (columns df) r)"
  have 1: "find (\<lambda>(k, r). k = IntV rid) (map ?f (filter (\<lambda>r. isin (rowid_cell (columns df) r) ids) (rows df)))
      = map_option ?f (find (\<lambda>r. rowid_cell (columns df) r = IntV rid) (rows df))"
    if "rid \<in> ids"
  proof -
    have "(\<lambda>x. isin (rowid_cell (columns df) x) ids \<and> rowid_cell (columns df) x = IntV rid)
          = (\<lambda>r. rowid_cell (columns df) r = IntV rid)"
      using that by (auto simp: isin_def)
    then show ?thesis
      by (simp add: find_map_eq find_filter)
  qed
  assume "rid \<in> ids"
  from 1[OF this] show ?thesis
    by (auto simp: loc_def set_index_def select_isin_def row_with_id_def series_of_def
        row_dtype_def zip_drop_label split: option.splits)
qed

lemma astype_int_Inr: "astype_int vs = Inr js \<Longrightarrow> vs = map IntV js"
proof (induction vs arbitrary: js)
  case Nil
  then show ?case by simp
next
  case (Cons v vs)
  then show ?case by (cases v) (auto split: sum.splits)
qed

lemma rowid_col:
  "col_index ''rowid'' (columns df) = Some i \<Longrightarrow>
   map (\<lambda>r. cell r i) (rows df) = map (rowid_cell (columns df)) (rows df)"
  by (simp add: rowid_cell_def)

lemma get_ids_Inr:
  assumes "get_ids df = Inr ids"
  shows "ids = {i. IntV i \<in> rowid_cell (columns df) ` set (rows df)}" and "finite ids"
proof -
  from assms obtain i where i: "col_index ''rowid'' (columns df) = Some i"
    by (auto simp: get_ids_def getitem_def split: option.splits)
  from assms i obtain js where
    js: "astype_int (dropna (map (rowid_cell (columns df)) (rows df))) = Inr js" "ids = set js"
    by (auto simp: get_ids_def getitem_def rowid_col split: sum.splits)
  from astype_int_Inr[OF js(1)] have eq: "dropna (map (rowid_cell (columns df)) (rows df)) = map IntV js" .
  have "set js = {i. IntV i \<in> set (map IntV js)}" by auto
  also have "\<dots> = {i. IntV i \<in> set (dropna (map (rowid_cell (columns df)) (rows df)))}"
    by (simp only: eq)
  also have "\<dots> = {i. IntV i \<in> rowid_cell (columns df) ` set (rows df)}"
    by (auto simp: dropna_def isna_def)
  finally show "ids = {i. IntV i \<in> rowid_cell (columns df) ` set (rows df)}" using js(2) by simp
  show "finite ids" using js(2) by simp
qed

lemma row_with_id_Some:
  assumes "get_ids df = Inr ids" and "rid \<in> ids"
  shows "\<exists>r. row_with_id df rid = Some r \<and> r \<in> set (rows df) \<and> rowid_cell (columns df) r = IntV rid"
proof -
  from get_ids_Inr(1)[OF assms(1)] assms(2)
  obtain r where "r \<in> set (rows df)" "rowid_cell (columns df) r = IntV rid" by auto
  then have "find (\<lambda>r. rowid_cell (columns df) r = IntV rid) (rows df) \<noteq> None"
    by (auto simp: find_None_iff)
  then obtain r' where r': "find (\<lambda>r. rowid_cell (columns df) r = IntV rid) (rows df) = Some r'"
    by auto
  then have "r' \<in> set (rows df)" "rowid_cell (columns df) r' = IntV rid"
    by (auto simp: find_Some_iff)
  with r' show ?thesis by (auto simp: row_with_id_def)
qed







lemma series_of_no_rowid: "''rowid'' \<notin> fst ` set (cells (series_of df r))"
  by (auto simp: series_of_def)


lemma plan_update_mem:
  assumes "Update tn sc ps \<in> set (plan hash t od ed)"
  shows "\<exists>oi ci rid rn ro. get_ids od = Inr oi \<and> get_ids ed = Inr ci \<and> rid \<in> common_ids oi ci
      \<and> loc (set_index (select_isin (common_ids oi ci) ed)) rid = Inr rn
      \<and> loc (set_index (select_isin (common_ids oi ci) od)) rid = Inr ro
      \<and> \<not> equals rn ro \<and> Update tn sc ps = update_stmt hash t rid rn"
proof -
  from assms obtain oi where oi: "get_ids od = Inr oi"
    by (cases "get_ids od") (auto simp: plan_def)
  from assms oi obtain ci where ci: "get_ids ed = Inr ci"
    by (cases "get_ids ed") (auto simp: plan_def)
  let ?com = "common_ids oi ci"
  from assms oi ci have "Update tn sc ps \<in> set (planned_updates hash t
      (set_index (select_isin ?com ed)) (set_index (select_isin ?com od)) (sorted_list_of_set ?com))"
    by (auto simp: plan_def split: if_splits)
  from planned_updates_mem[OF this] obtain rid rn ro where
    m: "rid \<in> set (sorted_list_of_set ?com)"
       "loc (set_index (select_isin ?com ed)) rid = Inr rn"
       "loc (set_index (select_isin ?com od)) rid = Inr ro"
       "\<not> equals rn ro" "Update tn sc ps = update_stmt hash t rid rn" by blast
  have "finite ?com" using get_ids_Inr(2)[OF oi] by (simp add: common_ids_def)
  with m(1) have "rid \<in> ?com" by simp
  with oi ci m show ?thesis by blast
qed


lemma update_sent_shape:
  assumes run: "save_changes ex hash t od ed w = (w', tr)" and m: "(Update tn sc ps, x) \<in> set tr"
  shows "tn = t \<and> ''rowid'' \<notin> fst ` set sc
     \<and> (\<exists>rid. map_of ps ''rowid'' = Some (IntV rid)
            \<and> row_with_id od rid \<noteq> None \<and> row_with_id ed rid \<noteq> None)"
proof -
  from sent_in_plan[OF run m] have "Update tn sc ps \<in> set (plan hash t od ed)" .
  from plan_update_mem[OF this] obtain oi ci rid rn ro where
    p: "get_ids od = Inr oi" "get_ids ed = Inr ci" "rid \<in> common_ids oi ci"
       "loc (set_index (select_isin (common_ids oi ci) ed)) rid = Inr rn"
       "loc (set_index (select_isin (common_ids oi ci) od)) rid = Inr ro"
       "Update tn sc ps = update_stmt hash t rid rn" by blast
  from update_stmt_shape[of hash t rid rn] p(6)
  have sh: "tn = t" "map fst sc = map fst (to_dict rn)" "map_of ps ''rowid'' = Some (IntV rid)"
    by auto
  from p(3) have "rid \<in> oi" "rid \<in> ci" by (simp_all add: common_ids_def)
  with row_with_id_Some p(1,2) obtain r1 r2 where
    r: "row_with_id od rid = Some r1" "row_with_id ed rid = Some r2" by blast
  with p(3,4) have "rn = series_of ed r2" by (simp add: loc_select_isin)
  then have "''rowid'' \<notin> fst ` set (to_dict rn)"
    by (simp add: to_dict_keys series_of_no_rowid)
  then have "''rowid'' \<notin> set (map fst (to_dict rn))" by simp
  with sh(2) have "''rowid'' \<notin> set (map fst sc)" by simp
  then have "''rowid'' \<notin> fst ` set sc" by simp
  with sh r show ?thesis by auto
qed




section \<open>Rows with a foreign identifier\<close>

lemma astype_int_without_foreign:
  "astype_int (dropna (map (rowid_cell cols) (filter (\<lambda>r. \<not> foreign oi cols r) rs)))
     = (case astype_int (dropna (map (rowid_cell cols) rs)) of
          Inl e \<Rightarrow> Inl e
        | Inr js \<Rightarrow> Inr (filter (\<lambda>i. i \<in> oi) js))"
proof (induction rs)
  case Nil
  then show ?case by (simp add: dropna_def)
next
  case (Cons r rs)
  show ?case
  proof (cases "rowid_cell cols r")
    case Null
    with Cons show ?thesis by (simp add: dropna_def isna_def foreign_def)
  next
    case (IntV i)
    with Cons show ?thesis
      by (cases "astype_int (dropna (map (rowid_cell cols) rs))")
         (auto simp: dropna_def isna_def foreign_def)
  next
    case (StrV s)
    with Cons show ?thesis by (simp add: dropna_def isna_def foreign_def)
  qed
qed

lemma get_ids_Some:
  "col_index ''rowid'' (columns df) = Some i \<Longrightarrow>
   get_ids df = (case astype_int (dropna (map (rowid_cell (columns df)) (rows df))) of
                   Inl e \<Rightarrow> Inl e | Inr js \<Rightarrow> Inr (set js))"
proof -
  assume i: "col_index ''rowid'' (columns df) = Some i"
  then have "rowid_cell (columns df) = (\<lambda>r. cell r i)"
    by (simp add: rowid_cell_def fun_eq_iff)
  with i show ?thesis by (simp add: get_ids_def getitem_def)
qed

lemma get_ids_without_foreign:
  "get_ids (without_foreign oi ed)
     = (case get_ids ed of Inl e \<Rightarrow> Inl e | Inr ci \<Rightarrow> Inr (ci \<inter> oi))"
proof (cases "col_index ''rowid'' (columns ed)")
  case None
  then show ?thesis by (simp add: get_ids_def getitem_def without_foreign_def)
next
  case (Some i)
  have c: "columns (without_foreign oi ed) = columns ed"
    and r: "rows (without_foreign oi ed) = filter (\<lambda>r. \<not> foreign oi (columns ed) r) (rows ed)"
    by (simp_all add: without_foreign_def)
  have "get_ids (without_foreign oi ed) =
      (case astype_int (dropna (map (rowid_cell (columns ed))
              (filter (\<lambda>r. \<not> foreign oi (columns ed) r) (rows ed)))) of
         Inl e \<Rightarrow> Inl e | Inr js \<Rightarrow> Inr (set js))"
    using get_ids_Some[of "without_foreign oi ed" i] Some by (simp only: c r)
  moreover have "get_ids ed =
      (case astype_int (dropna (map (rowid_cell (columns ed)) (rows ed))) of
         Inl e \<Rightarrow> Inl e | Inr js \<Rightarrow> Inr (set js))"
    using get_ids_Some[OF Some] .
  ultimately show ?thesis
    by (auto simp: astype_int_without_foreign split: sum.splits)
qed

lemma select_isna_without_foreign: "select_isna (without_foreign oi ed) = select_isna ed"
proof -
  have "filter (\<lambda>r. isna (rowid_cell cols r)) (filter (\<lambda>r. \<not> foreign oi cols r) rs)
      = filter (\<lambda>r. isna (rowid_cell cols r)) rs" for cols rs
    by (induction rs) (auto simp: isna_def foreign_def)
  then show ?thesis by (simp add: select_isna_def without_foreign_def)
qed

lemma select_isin_without_foreign:
  "ids \<subseteq> oi \<Longrightarrow> select_isin ids (without_foreign oi ed) = select_isin ids ed"
proof -
  assume sub: "ids \<subseteq> oi"
  have "filter (\<lambda>r. isin (rowid_cell cols r) ids) (filter (\<lambda>r. \<not> foreign oi cols r) rs)
      = filter (\<lambda>r. isin (rowid_cell cols r) ids) rs" for cols rs
    using sub by (induction rs) (auto simp: isin_def foreign_def split: val.splits)
  then show ?thesis by (simp add: select_isin_def without_foreign_def)
qed

lemma body_without_foreign:
  assumes "get_ids od = Inr oi"
  shows "body ex hash t od (without_foreign oi ed) c = body ex hash t od ed c"
proof (cases "get_ids ed")
  case (Inl e)
  with assms show ?thesis by (simp add: body_def get_ids_without_foreign)
next
  case (Inr ci)
  have d: "deleted_ids oi (ci \<inter> oi) = deleted_ids oi ci" by (auto simp: deleted_ids_def)
  have cm: "common_ids oi (ci \<inter> oi) = common_ids oi ci" by (auto simp: common_ids_def)
  have sub: "common_ids oi ci \<subseteq> oi" by (auto simp: common_ids_def)
  have u: "update_phase ex hash t od (without_foreign oi ed) (common_ids oi ci) c2
      = update_phase ex hash t od ed (common_ids oi ci) c2" for c2
    by (simp add: update_phase_def select_isin_without_foreign[OF sub])
  from assms Inr show ?thesis
    by (auto simp: body_def Let_def get_ids_without_foreign d cm u select_isna_without_foreign
        split: prod.splits sum.splits)
qed

section \<open>Identifiers through a run\<close>

lemma execute_work:
  "execute ex s c = (r, c') \<Longrightarrow>
     (case r of Inl e \<Rightarrow> work c' = work c | Inr u \<Rightarrow> ex s (work c) = Inr (work c'))"
  by (auto simp: execute_def split: sum.splits)

lemma loc_no_rowid:
  "loc (set_index df) rid = Inr rn \<Longrightarrow> ''rowid'' \<notin> fst ` set (cells rn)"
  by (auto simp: loc_def set_index_def split: option.splits dest!: set_zip_leftD)

lemma update_stmt_no_rowid:
  assumes "''rowid'' \<notin> fst ` set (cells rn)"
  shows "\<exists>sc ps. update_stmt hash t rid rn = Update t sc ps \<and> ''rowid'' \<notin> fst ` set sc"
proof -
  from update_stmt_shape[of hash t rid rn] obtain sc ps where
    s: "update_stmt hash t rid rn = Update t sc ps" "map fst sc = map fst (to_dict rn)" by blast
  from assms have "''rowid'' \<notin> set (map fst (to_dict rn))" by (simp add: to_dict_keys)
  with s(2) have "''rowid'' \<notin> set (map fst sc)" by simp
  with s(1) show ?thesis by auto
qed

text \<open>The loop of UPDATE statements leaves the identifiers where they are.\<close>

lemma update_loop_ident:
  assumes con: "identifier_contract ex ident t"
    and lab: "\<And>rid rn. loc ee rid = Inr rn \<Longrightarrow> ''rowid'' \<notin> fst ` set (cells rn)"
  shows "update_loop ex hash t ee eo rids n c = (r, c') \<Longrightarrow> ident (work c') = ident (work c)"
proof (induction rids arbitrary: n c)
  case Nil
  then show ?case by simp
next
  case (Cons rid rids)
  show ?case
  proof (cases "loc ee rid")
    case (Inl e)
    with Cons.prems show ?thesis by simp
  next
    case rn: (Inr row_new)
    show ?thesis
    proof (cases "loc eo rid")
      case (Inl e)
      with rn Cons.prems show ?thesis by simp
    next
      case ro: (Inr row_orig)
      show ?thesis
      proof (cases "equals row_new row_orig")
        case True
        with rn ro Cons.prems have "update_loop ex hash t ee eo rids n c = (r, c')" by simp
        from Cons.IH[OF this] show ?thesis .
      next
        case False
        let ?s = "update_stmt hash t rid row_new"
        obtain r1 c1 where ex1: "execute ex ?s c = (r1, c1)" by (cases "execute ex ?s c")
        from update_stmt_no_rowid[OF lab[OF rn], of hash t rid] obtain sc ps where
          s: "?s = Update t sc ps" "''rowid'' \<notin> fst ` set sc" by blast
        show ?thesis
        proof (cases r1)
          case (Inl e)
          with rn ro False ex1 Cons.prems have "c' = c1" by auto
          with execute_work[OF ex1] Inl show ?thesis by simp
        next
          case (Inr u)
          with execute_work[OF ex1] s(1) have "ex (Update t sc ps) (work c) = Inr (work c1)" by simp
          with con s(2) have i1: "ident (work c1) = ident (work c)"
            unfolding identifier_contract_def by blast
          from Inr rn ro False ex1 Cons.prems
          have "update_loop ex hash t ee eo rids (n + 1) c1 = (r, c')" by auto
          from Cons.IH[OF this] i1 show ?thesis by simp
        qed
      qed
    qed
  qed
qed

lemma delete_phase_ident:
  assumes con: "identifier_contract ex ident t" and d: "delete_phase ex t del c = (Inr u, c')"
  shows "ident (work c') = filter (\<lambda>i. i \<notin> del) (ident (work c))"
proof (cases "del = {}")
  case True
  with d show ?thesis by (simp add: delete_phase_def)
next
  case False
  with d have "execute ex (Delete t del) c = (Inr u, c')" by (simp add: delete_phase_def)
  from execute_work[OF this] have "ex (Delete t del) (work c) = Inr (work c')" by simp
  with con show ?thesis unfolding identifier_contract_def by blast
qed

lemma insert_phase_ident:
  assumes con: "identifier_contract ex ident t" and i: "insert_phase ex t nr c = (Inr u, c')"
  shows "\<exists>new. ident (work c') = ident (work c) @ new \<and> length new = length (rows nr)
            \<and> set new \<inter> set (ident (work c)) = {}"
proof (cases "rows nr = []")
  case True
  with i show ?thesis by (simp add: insert_phase_def)
next
  case False
  let ?f = "drop_columns ''rowid'' nr"
  from False i have "execute ex (Insert t (columns ?f) (rows ?f)) c = (Inr u, c')"
    by (simp add: insert_phase_def Let_def)
  from execute_work[OF this] have "ex (Insert t (columns ?f) (rows ?f)) (work c) = Inr (work c')"
    by simp
  with con obtain new where "ident (work c') = ident (work c) @ new"
    "length new = length (rows ?f)" "set new \<inter> set (ident (work c)) = {}"
    unfolding identifier_contract_def by blast
  then show ?thesis by (auto simp: drop_columns_def)
qed

lemma body_ident:
  assumes con: "identifier_contract ex ident t" and b: "body ex hash t od ed c = (Inr x, c')"
  shows "\<exists>oi ci new. get_ids od = Inr oi \<and> get_ids ed = Inr ci
      \<and> ident (work c') = filter (\<lambda>i. i \<notin> deleted_ids oi ci) (ident (work c)) @ new
      \<and> length new = length (rows (select_isna ed))
      \<and> set new \<inter> set (filter (\<lambda>i. i \<notin> deleted_ids oi ci) (ident (work c))) = {}"
proof -
  from b obtain oi where oi: "get_ids od = Inr oi"
    by (cases "get_ids od") (auto simp: body_def)
  from b oi obtain ci where ci: "get_ids ed = Inr ci"
    by (cases "get_ids ed") (auto simp: body_def)
  let ?del = "deleted_ids oi ci"
  let ?com = "common_ids oi ci"
  obtain r1 c1 where d: "delete_phase ex t ?del c = (r1, c1)"
    by (cases "delete_phase ex t ?del c")
  from b oi ci d obtain u1 where r1: "r1 = Inr u1"
    by (cases r1) (auto simp: body_def Let_def)
  obtain r2 c2 where i: "insert_phase ex t (select_isna ed) c1 = (r2, c2)"
    by (cases "insert_phase ex t (select_isna ed) c1")
  from b oi ci d r1 i obtain u2 where r2: "r2 = Inr u2"
    by (cases r2) (auto simp: body_def Let_def)
  obtain r3 c3 where u: "update_phase ex hash t od ed ?com c2 = (r3, c3)"
    by (cases "update_phase ex hash t od ed ?com c2")
  from b oi ci d r1 i r2 u have c': "c' = c3"
    by (cases r3) (auto simp: body_def Let_def)
  from u have "update_loop ex hash t (set_index (select_isin ?com ed))
      (set_index (select_isin ?com od)) (sorted_list_of_set ?com) 0 c2 = (r3, c3)"
    by (simp add: update_phase_def Let_def)
  from update_loop_ident[OF con loc_no_rowid this] have i3: "ident (work c3) = ident (work c2)" .
  from delete_phase_ident[OF con d[unfolded r1]]
  have i1: "ident (work c1) = filter (\<lambda>i. i \<notin> ?del) (ident (work c))" .
  from insert_phase_ident[OF con i[unfolded r2]] obtain new where
    i2: "ident (work c2) = ident (work c1) @ new" "length new = length (rows (select_isna ed))"
        "set new \<inter> set (ident (work c1)) = {}" by blast
  from i1 i2 i3 c' oi ci show ?thesis by auto
qed

subsection \<open>The table engine keeps the contract\<close>

lemma foldr_max_upper: "x \<in> set (i # js) \<Longrightarrow> x \<le> foldr max js (i::int)"
  by (induction js) auto

lemma next_rowid_fresh: "next_rowid tbl \<notin> set (map fst tbl)"
proof (cases "map fst tbl")
  case Nil
  then show ?thesis by simp
next
  case (Cons i js)
  have "\<forall>x\<in>set (i # js). x < foldr max js i + 1"
    using foldr_max_upper[of _ i js] by fastforce
  then have "foldr max js i + 1 \<notin> set (i # js)" by blast
  with Cons show ?thesis by (simp add: next_rowid_def)
qed

lemma insert_rows_ids:
  "\<exists>new. map fst (insert_rows cols rws tbl) = map fst tbl @ new \<and> length new = length rws
         \<and> set new \<inter> set (map fst tbl) = {}"
proof (induction rws arbitrary: tbl)
  case Nil
  then show ?case by simp
next
  case (Cons r rws)
  let ?t = "tbl @ [(next_rowid tbl, zip cols r)]"
  from Cons[of ?t] obtain new where
    n: "map fst (insert_rows cols rws ?t) = map fst ?t @ new" "length new = length rws"
       "set new \<inter> set (map fst ?t) = {}" by blast
  have "map fst (insert_rows cols (r # rws) tbl) = map fst tbl @ (next_rowid tbl # new)"
    using n(1) by simp
  moreover have "length (next_rowid tbl # new) = length (r # rws)" using n(2) by simp
  moreover have "set (next_rowid tbl # new) \<inter> set (map fst tbl) = {}"
    using n(3) next_rowid_fresh[of tbl] by auto
  ultimately show ?case by blast
qed

lemma set_columns_fst:
  "''rowid'' \<notin> fst ` set sc \<Longrightarrow> fst (foldl (set_column ps) row sc) = fst row"
proof (induction sc arbitrary: row)
  case Nil
  then show ?case by simp
next
  case (Cons cl sc)
  from Cons.prems have "fst cl \<noteq> ''rowid''" by auto
  then have "fst (set_column ps row cl) = fst row"
    by (simp add: set_column_def split: option.splits)
  with Cons show ?case by simp
qed

lemma update_rows_ids:
  "''rowid'' \<notin> fst ` set sc \<Longrightarrow> map fst (update_rows sc ps tbl) = map fst tbl"
  by (simp add: update_rows_def set_columns_fst comp_def)

lemma table_engine_contract: "identifier_contract (table_engine t check) (map fst) t"
proof -
  have "map fst (delete_rows ids d) = filter (\<lambda>i. i \<notin> ids) (map fst d)" for ids and d :: table
    by (simp add: delete_rows_def filter_map comp_def)
  then show ?thesis
    unfolding identifier_contract_def
    using insert_rows_ids update_rows_ids
    by (auto simp: table_engine_def run_stmt_def split: sum.splits option.splits if_splits)
qed

section \<open>Claims\<close>

text \<open>
  C1. Whenever a DELETE, INSERT or UPDATE statement of a call of \<^verbatim>\<open>save_changes\<close>
  fails, the transaction is rolled back: the database after the call is the database
  before it, whatever the statements accepted before the failure did, no success is
  reported, and an error message is stored for the page to show.
\<close>

theorem failure_rolls_back:
  assumes "save_changes ex hash t od ed w = (w', tr)" and "(s, Some m) \<in> set tr"
  shows "db w' = db w \<and> success_message w' = success_message w \<and> error_message w' \<noteq> None"
  using save_changes_failed[OF assms] by simp

text \<open>
  An instance: row 2 is deleted from the grid and row 1 is edited; the engine accepts
  the DELETE and refuses the UPDATE; the database is as before.
\<close>

theorem failure_rolls_back_witness:
  "snd (save_changes refuse_updates no_hash ''t'' snapshot_a_b snapshot_z start_world)
     = [(Delete ''t'' {2}, None),
        (Update ''t'' [(''value'', ''value'')] [(''value'', StrV ''z''), (''rowid'', IntV 1)],
         Some ''CHECK constraint failed'')]
   \<and> db (fst (save_changes refuse_updates no_hash ''t'' snapshot_a_b snapshot_z start_world)) = []
   \<and> success_message (fst (save_changes refuse_updates no_hash ''t'' snapshot_a_b snapshot_z start_world)) = None
   \<and> error_message (fst (save_changes refuse_updates no_hash ''t'' snapshot_a_b snapshot_z start_world)) \<noteq> None"
proof -
  let ?run = "save_changes refuse_updates no_hash ''t'' snapshot_a_b snapshot_z start_world"
  have tr: "snd ?run
     = [(Delete ''t'' {2}, None),
        (Update ''t'' [(''value'', ''value'')] [(''value'', StrV ''z''), (''rowid'', IntV 1)],
         Some ''CHECK constraint failed'')]"
    by code_simp
  have run: "?run = (fst ?run, snd ?run)" by simp
  have mem: "(Update ''t'' [(''value'', ''value'')] [(''value'', StrV ''z''), (''rowid'', IntV 1)],
         Some ''CHECK constraint failed'') \<in> set (snd ?run)"
    unfolding tr by simp
  have w: "db start_world = []" "success_message start_world = None"
    by (simp_all add: start_world_def)
  from failure_rolls_back[OF run mem] tr w show ?thesis by simp
qed

text \<open>
  C2. The specification says that equal identifier sets and equal rows mean that no
  statement is sent. Read over the non-null identifiers, that fails: a row added in
  the grid has no identifier, so it leaves the set of non-null identifiers as it was,
  and it is inserted. Here the edited snapshot is the original one with one such
  row, and the INSERT is sent.
\<close>

theorem equal_ids_new_row_counterexample:
  "get_ids snapshot_a = Inr {1} \<and> get_ids snapshot_a_new = Inr {1}
   \<and> row_with_id snapshot_a_new 1 = row_with_id snapshot_a 1
   \<and> snd (save_changes accept_all no_hash ''t'' snapshot_a snapshot_a_new start_world)
       = [(Insert ''t'' [''value''] [[StrV ''b'']], None)]"
  by code_simp

text \<open>
  C2, amended. If moreover the edited snapshot has no row with a missing identifier,
  and its rows have the dtype of the rows of the original snapshot, then no statement
  is sent, whatever the engine would answer: the identifiers are those of the original
  snapshot, and each row is the row of the original snapshot with the same
  identifier. The dtype matters because \<^verbatim>\<open>Series.equals\<close> tells two rows of
  equal values and different dtype apart.
\<close>

theorem unchanged_snapshot_sends_nothing:
  assumes wf: "wf_frame od" "wf_frame ed" and cols: "columns ed = columns od"
    and dt: "row_dtype ed = row_dtype od"
    and ids: "get_ids od = Inr ids" "get_ids ed = Inr ids"
    and nonew: "\<forall>r\<in>set (rows ed). rowid_cell (columns ed) r \<noteq> Null"
    and same: "\<forall>rid\<in>ids. row_with_id ed rid = row_with_id od rid"
    and run: "save_changes ex hash t od ed w = (w', tr)"
  shows "tr = []"
proof -
  let ?com = "common_ids ids ids"
  have com: "?com = ids" by (simp add: common_ids_def)
  have fin: "finite ids" using get_ids_Inr(2)[OF ids(1)] .
  have "loc (set_index (select_isin ?com ed)) i = loc (set_index (select_isin ?com od)) i"
    if "i \<in> ids" for i
    using that same cols dt by (auto simp: com loc_select_isin series_of_def split: option.splits)
  then have "planned_updates hash t (set_index (select_isin ?com ed))
      (set_index (select_isin ?com od)) (sorted_list_of_set ?com) = []"
    using fin by (intro planned_updates_none) (simp add: com)
  moreover have "rows (select_isna ed) = []"
    using nonew by (auto simp: select_isna_def isna_def filter_empty_conv)
  moreover have "deleted_ids ids ids = {}" by (simp add: deleted_ids_def)
  ultimately have "plan hash t od ed = []" using ids by (simp add: plan_def)
  with save_changes_trace[OF run] show ?thesis by simp
qed

theorem unchanged_snapshot_sends_nothing_witness:
  "wf_frame snapshot_a_b \<and> columns snapshot_a_b = columns snapshot_a_b
   \<and> row_dtype snapshot_a_b = row_dtype snapshot_a_b
   \<and> get_ids snapshot_a_b = Inr {1, 2}
   \<and> filter (\<lambda>r. rowid_cell (columns snapshot_a_b) r = Null) (rows snapshot_a_b) = []
   \<and> snd (save_changes refuse_updates no_hash ''t'' snapshot_a_b snapshot_a_b start_world) = []"
proof -
  let ?run = "save_changes refuse_updates no_hash ''t'' snapshot_a_b snapshot_a_b start_world"
  have run: "?run = (fst ?run, snd ?run)" by simp
  have wf: "wf_frame snapshot_a_b" by code_simp
  have ids: "get_ids snapshot_a_b = Inr {1, 2}" by code_simp
  have nonew: "\<forall>r\<in>set (rows snapshot_a_b). rowid_cell (columns snapshot_a_b) r \<noteq> Null"
    by code_simp
  have same: "\<forall>rid\<in>{1, 2}. row_with_id snapshot_a_b rid = row_with_id snapshot_a_b rid" by simp
  have none: "filter (\<lambda>r. rowid_cell (columns snapshot_a_b) r = Null) (rows snapshot_a_b) = []"
    by code_simp
  from unchanged_snapshot_sends_nothing[OF wf wf refl refl ids ids nonew same run] wf ids none
  show ?thesis by simp
qed

text \<open>
  C3. The identifiers to delete (those of the original snapshot that the edited one
  lacks) and the identifiers to compare (those in both) are disjoint, and together
  they are the identifiers of the original snapshot.
\<close>

theorem deleted_common_partition:
  "deleted_ids orig_ids current_ids \<inter> common_ids orig_ids current_ids = {}
   \<and> deleted_ids orig_ids current_ids \<union> common_ids orig_ids current_ids = orig_ids"
  by (auto simp: deleted_ids_def common_ids_def)

text \<open>
  C4. On O = {(1,"a"),(2,"b")} and E = {(1,"a"),(3,"b")}, read as written, the
  specification expects one row inserted and Added: 1. The row (3,"b") has an
  identifier, so it is not a new row, and the original snapshot has no row 3, so it
  is no row to compare either: the DELETE of row 2 is the only statement, and the
  report is Added: 0, Deleted: 1, Updated: 0.
\<close>

theorem scenario_literal_ids_counterexample:
  "snd (save_changes accept_all no_hash ''t'' snapshot_a_b snapshot_a_3b start_world)
     = [(Delete ''t'' {2}, None)]
   \<and> success_message (fst (save_changes accept_all no_hash ''t'' snapshot_a_b snapshot_a_3b start_world))
     = Some ''Successfully saved changes! (Added: 0, Deleted: 1, Updated: 0)''"
  by code_simp

text \<open>
  C4, amended. A row added in the grid has no identifier yet. On
  O = {(1,"a"),(2,"b")} and E = {(1,"a"),(null,"b")} the call sends the DELETE of row
  2 and one INSERT of one row with value "b", no statement for row 1, and reports
  Added: 1, Deleted: 1, Updated: 0. On the table engine the table is then row 1 as it
  was and the new row with value "b"; the engine gives it the identifier after the
  greatest one left, which is 2 again.
\<close>

theorem scenario_new_row_run:
  "snd (save_changes accept_all no_hash ''t'' snapshot_a_b snapshot_a_newb start_world)
     = [(Delete ''t'' {2}, None), (Insert ''t'' [''value''] [[StrV ''b'']], None)]
   \<and> success_message (fst (save_changes accept_all no_hash ''t'' snapshot_a_b snapshot_a_newb start_world))
     = Some ''Successfully saved changes! (Added: 1, Deleted: 1, Updated: 0)''
   \<and> db (fst (save_changes (table_engine ''t'' no_check) no_hash ''t'' snapshot_a_b snapshot_a_newb table_a_b))
     = [(1, [(''value'', StrV ''a'')]), (2, [(''value'', StrV ''b'')])]"
  by code_simp




text \<open>
  C6. If the original or the edited snapshot has no \<^verbatim>\<open>rowid\<close> column, no
  statement is sent, the database is unchanged and no success is reported.
\<close>

theorem missing_rowid_rejected:
  assumes "''rowid'' \<notin> set (columns od) \<or> ''rowid'' \<notin> set (columns ed)"
    and "save_changes ex hash t od ed w = (w', tr)"
  shows "tr = [] \<and> db w' = db w \<and> success_message w' = success_message w"
proof (cases "''rowid'' \<notin> set (columns od)")
  case True
  with assms(2) show ?thesis
    by (auto simp: save_changes_def Let_def begin_trans_def rollback_def)
next
  case False
  with assms(1) have "''rowid'' \<notin> set (columns ed)" by simp
  then obtain e where e: "get_ids ed = Inl e" using get_ids_missing by blast
  have "\<exists>e'. body ex hash t od ed (begin_trans (db w)) = (Inl e', begin_trans (db w))"
    using e by (cases "get_ids od") (auto simp: body_def)
  with False assms(2) show ?thesis
    by (auto simp: save_changes_def Let_def begin_trans_def rollback_def)
qed

theorem missing_rowid_rejected_witness:
  "''rowid'' \<notin> set (columns snapshot_no_rowid)
   \<and> snd (save_changes accept_all no_hash ''t'' snapshot_no_rowid snapshot_no_rowid start_world) = []
   \<and> db (fst (save_changes accept_all no_hash ''t'' snapshot_no_rowid snapshot_no_rowid start_world))
     = db start_world"
proof -
  let ?run = "save_changes accept_all no_hash ''t'' snapshot_no_rowid snapshot_no_rowid start_world"
  have h: "''rowid'' \<notin> set (columns snapshot_no_rowid) \<or> ''rowid'' \<notin> set (columns snapshot_no_rowid)"
    by (simp add: snapshot_no_rowid_def)
  have run: "?run = (fst ?run, snd ?run)" by simp
  from missing_rowid_rejected[OF h run] h show ?thesis by simp
qed

text \<open>
  C7. When a statement fails, the message of the engine reaches the page as it is:
  the stored error message is the fixed label \<^verbatim>\<open>Error saving changes: \<close> followed by
  that message, character for character.
\<close>

theorem failure_message_surfaced:
  assumes "save_changes ex hash t od ed w = (w', tr)" and "(s, Some m) \<in> set tr"
  shows "error_message w' = Some (''Error saving changes: '' @ m)"
  using save_changes_failed[OF assms] by simp

theorem failure_message_surfaced_witness:
  "(Update ''t'' [(''value'', ''value'')] [(''value'', StrV ''z''), (''rowid'', IntV 1)],
      Some ''CHECK constraint failed'')
     \<in> set (snd (save_changes refuse_updates no_hash ''t'' snapshot_a snapshot_z start_world))
   \<and> error_message (fst (save_changes refuse_updates no_hash ''t'' snapshot_a snapshot_z start_world))
     = Some ''Error saving changes: CHECK constraint failed''"
proof -
  let ?run = "save_changes refuse_updates no_hash ''t'' snapshot_a snapshot_z start_world"
  have mem: "(Update ''t'' [(''value'', ''value'')] [(''value'', StrV ''z''), (''rowid'', IntV 1)],
      Some ''CHECK constraint failed'') \<in> set (snd ?run)"
    by code_simp
  have run: "?run = (fst ?run, snd ?run)" by simp
  from failure_message_surfaced[OF run mem] mem show ?thesis by simp
qed



text \<open>
  C9. The SET clause of every UPDATE that \<^verbatim>\<open>save_changes\<close> sends names no
  \<^verbatim>\<open>rowid\<close> column, and its WHERE clause \<^verbatim>\<open>rowid = :rowid\<close> is bound to
  the identifier of a row that both snapshots have. So, on any storage engine that
  keeps the contract above, the rows that a save does not delete are after the save
  under the identifiers they had before it, in the same order; the only other
  identifiers are those the engine gave to the inserted rows. (A save that fails, or
  is rejected, leaves the database as it was.)
\<close>

theorem update_never_sets_rowid:
  assumes con: "identifier_contract ex ident t"
    and run: "save_changes ex hash t od ed w = (w', tr)"
  shows "(\<forall>tn sc ps x. (Update tn sc ps, x) \<in> set tr \<longrightarrow>
            ''rowid'' \<notin> fst ` set sc
            \<and> (\<exists>rid. map_of ps ''rowid'' = Some (IntV rid)
                   \<and> row_with_id od rid \<noteq> None \<and> row_with_id ed rid \<noteq> None))
       \<and> (db w' = db w
            \<or> (\<exists>oi ci new. get_ids od = Inr oi \<and> get_ids ed = Inr ci
                  \<and> ident (db w') = filter (\<lambda>i. i \<notin> deleted_ids oi ci) (ident (db w)) @ new
                  \<and> length new = length (rows (select_isna ed))
                  \<and> set new \<inter> set (filter (\<lambda>i. i \<notin> deleted_ids oi ci) (ident (db w))) = {}))"
proof (rule conjI)
  show "\<forall>tn sc ps x. (Update tn sc ps, x) \<in> set tr \<longrightarrow>
            ''rowid'' \<notin> fst ` set sc
            \<and> (\<exists>rid. map_of ps ''rowid'' = Some (IntV rid)
                   \<and> row_with_id od rid \<noteq> None \<and> row_with_id ed rid \<noteq> None)"
    using update_sent_shape[OF run] by blast
next
  let ?c = "begin_trans (db w)"
  show "db w' = db w
            \<or> (\<exists>oi ci new. get_ids od = Inr oi \<and> get_ids ed = Inr ci
                  \<and> ident (db w') = filter (\<lambda>i. i \<notin> deleted_ids oi ci) (ident (db w)) @ new
                  \<and> length new = length (rows (select_isna ed))
                  \<and> set new \<inter> set (filter (\<lambda>i. i \<notin> deleted_ids oi ci) (ident (db w))) = {})"
  proof (cases "''rowid'' \<notin> set (columns od)")
    case True
    with run have "db w' = db w"
      by (auto simp: save_changes_def Let_def begin_trans_def rollback_def)
    then show ?thesis by simp
  next
    case False
    obtain r c' where b: "body ex hash t od ed ?c = (r, c')" by (cases "body ex hash t od ed ?c")
    show ?thesis
    proof (cases r)
      case (Inl e)
      have "all_accepted (sent ?c)" by (simp add: begin_trans_def)
      from body_inv[OF this b] have "committed c' = db w"
        by (simp add: outcome_inv_def begin_trans_def)
      with False b Inl run have "db w' = db w"
        by (auto simp: save_changes_def Let_def rollback_def)
      then show ?thesis by simp
    next
      case (Inr x)
      with False b run have "db w' = work c'"
        by (auto simp: save_changes_def Let_def commit_def split: prod.splits)
      moreover have "work ?c = db w" by (simp add: begin_trans_def)
      ultimately show ?thesis using body_ident[OF con b[unfolded Inr]] by simp
    qed
  qed
qed

text \<open>
  An instance on the table engine: row 1 is edited; after the save the two rows are
  under the identifiers 1 and 2 as before.
\<close>

theorem update_never_sets_rowid_witness:
  "(Update ''t'' [(''value'', ''value'')] [(''value'', StrV ''z''), (''rowid'', IntV 1)], None)
     \<in> set (snd (save_changes (table_engine ''t'' no_check) no_hash ''t'' snapshot_a_b snapshot_z_b table_a_b))
   \<and> ''rowid'' \<notin> fst ` set [(''value'', ''value'')]
   \<and> map fst (db table_a_b) = [1, 2]
   \<and> db (fst (save_changes (table_engine ''t'' no_check) no_hash ''t'' snapshot_a_b snapshot_z_b table_a_b))
       = [(1, [(''value'', StrV ''z'')]), (2, [(''value'', StrV ''b'')])]
   \<and> map fst (db (fst (save_changes (table_engine ''t'' no_check) no_hash ''t'' snapshot_a_b snapshot_z_b table_a_b)))
       = [1, 2]"
proof -
  let ?run = "save_changes (table_engine ''t'' no_check) no_hash ''t'' snapshot_a_b snapshot_z_b table_a_b"
  have mem: "(Update ''t'' [(''value'', ''value'')] [(''value'', StrV ''z''), (''rowid'', IntV 1)], None)
     \<in> set (snd ?run)"
    by code_simp
  have run: "?run = (fst ?run, snd ?run)" by simp
  have before: "map fst (db table_a_b) = [1, 2]" by code_simp
  have after: "db (fst ?run) = [(1, [(''value'', StrV ''z'')]), (2, [(''value'', StrV ''b'')])]"
    by code_simp
  have ids: "get_ids snapshot_a_b = Inr {1, 2}" "get_ids snapshot_z_b = Inr {1, 2}" by code_simp+
  have none: "rows (select_isna snapshot_z_b) = []" by code_simp
  have neq: "db (fst ?run) \<noteq> db table_a_b" unfolding after by code_simp
  note main = update_never_sets_rowid[OF table_engine_contract run]
  from main mem have 1: "''rowid'' \<notin> fst ` set [(''value'', ''value'')]" by blast
  from main neq obtain oi ci new where
    k: "get_ids snapshot_a_b = Inr oi" "get_ids snapshot_z_b = Inr ci"
       "map fst (db (fst ?run)) = filter (\<lambda>i. i \<notin> deleted_ids oi ci) (map fst (db table_a_b)) @ new"
       "length new = length (rows (select_isna snapshot_z_b))" by blast
  from k(1,2) ids have "oi = {1, 2}" "ci = {1, 2}" by simp_all
  with k(3,4) none before have 2: "map fst (db (fst ?run)) = [1, 2]"
    by (simp add: deleted_ids_def)
  from mem 1 2 before after show ?thesis by simp
qed

text \<open>
  C10. A row of the edited snapshot whose identifier is a number that the original
  snapshot does not have changes nothing: the call sends the same statements, and
  leaves the same world with the same messages and counts, as the call on the edited
  snapshot without such rows.
\<close>

theorem foreign_rows_ignored:
  assumes "get_ids od = Inr orig_ids"
  shows "save_changes ex hash t od ed w = save_changes ex hash t od (without_foreign orig_ids ed) w"
  unfolding save_changes_def body_without_foreign[OF assms] by (rule refl)

theorem foreign_rows_ignored_witness:
  "get_ids snapshot_a_b = Inr {1, 2}
   \<and> rows (without_foreign {1, 2} snapshot_a_3b) = [[IntV 1, StrV ''a'']]
   \<and> save_changes accept_all no_hash ''t'' snapshot_a_b snapshot_a_3b start_world
     = save_changes accept_all no_hash ''t'' snapshot_a_b (without_foreign {1, 2} snapshot_a_3b) start_world"
proof -
  have ids: "get_ids snapshot_a_b = Inr {1, 2}" by code_simp
  have r: "rows (without_foreign {1, 2} snapshot_a_3b) = [[IntV 1, StrV ''a'']]" by code_simp
  from foreign_rows_ignored[OF ids] ids r show ?thesis by blast
qed

end
